theory Spec2Isabelle
  imports Main "HOL-Library.Stream" "HOL-Library.Word"
begin

section \<open>The libraries under the environment\<close>

text \<open>
  \<^verbatim>\<open>easy_21.py\<close> draws all its randomness from \<^verbatim>\<open>self.np_random\<close>, a numpy
  \<^verbatim>\<open>RandomState\<close> made by \<^verbatim>\<open>gym.utils.seeding.np_random\<close>. Neither library is part
  of the repository; the generator is modelled by what it will still produce: the stream
  of its raw outputs. A call to \<^verbatim>\<open>randint\<close> or to \<^verbatim>\<open>choice\<close> reads the head of the
  stream and leaves the tail behind as the generator's next state. Every deterministic
  generator is such a stream, and every stream is a possible generator, so a statement
  for all streams covers every seed.
\<close>

type_synonym rng = "nat stream"

text \<open>\<^verbatim>\<open>RandomState.randint(low, high)\<close>: an integer of the half-open range
  \<open>[low, high)\<close>. The source only calls it with \<open>low < high\<close>.\<close>

definition randint :: "int \<Rightarrow> int \<Rightarrow> rng \<Rightarrow> int \<times> rng" where
  "randint low high g = (low + int (shd g mod nat (high - low)), stl g)"

text \<open>\<^verbatim>\<open>RandomState.choice([x, y], p=[px, py])\<close> for two outcomes, the probabilities
  given in ten-thousandths (\<open>0.3333\<close> is \<open>3333\<close>): the first outcome when the raw
  sample falls below the first weight.\<close>

definition choice :: "int \<times> int \<Rightarrow> nat \<times> nat \<Rightarrow> rng \<Rightarrow> int \<times> rng" where
  "choice a p g =
     (if shd g mod (fst p + snd p) < fst p then fst a else snd a, stl g)"

text \<open>
  Two kinds of integer meet in the engine. \<^verbatim>\<open>randint\<close> returns a Python \<^verbatim>\<open>int\<close> (the
  file's own test asserts it of the observation after \<^verbatim>\<open>_draw_hand\<close>); \<^verbatim>\<open>choice\<close> returns
  a \<^verbatim>\<open>numpy.int64\<close>, so a card is a \<^verbatim>\<open>numpy.int64\<close> (the test asserts that too), and so
  is every sum a card has been added to. A \<^verbatim>\<open>numpy.int64\<close> is a 64-bit word read as
  a signed number, and its addition wraps. The Python integers an engine holds are dealt by
  \<^verbatim>\<open>randint(2, 11)\<close> or set by hand; they are taken within 64 bits, where numpy converts
  them exactly.
\<close>

datatype number = PyInt "64 word" | NpInt64 "64 word"

fun raw :: "number \<Rightarrow> 64 word" where
  "raw (PyInt w) = w"
| "raw (NpInt64 w) = w"

definition int_of :: "number \<Rightarrow> int" where
  "int_of x = sint (raw x)"

text \<open>\<^verbatim>\<open>x + c\<close> for a sum \<^verbatim>\<open>x\<close> of either kind and a card \<^verbatim>\<open>c\<close>, a \<^verbatim>\<open>numpy.int64\<close>: the result
  is a \<^verbatim>\<open>numpy.int64\<close>.\<close>

definition np_add :: "number \<Rightarrow> int \<Rightarrow> number" where
  "np_add x c = NpInt64 (raw x + word_of_int c)"

text \<open>A comparison of a Python \<^verbatim>\<open>int\<close> is a Python \<^verbatim>\<open>bool\<close>, a comparison of a
  \<^verbatim>\<open>numpy.int64\<close> is a \<^verbatim>\<open>numpy.bool_\<close>. Both count as true or false in an \<^verbatim>\<open>if\<close>;
  only the Python \<^verbatim>\<open>False\<close> is the object \<^verbatim>\<open>False\<close> that \<^verbatim>\<open>is False\<close> tests for.\<close>

datatype boolean = PyBool bool | NpBool bool

fun truth :: "boolean \<Rightarrow> bool" where
  "truth (PyBool b) = b"
| "truth (NpBool b) = b"

definition is_False :: "boolean \<Rightarrow> bool" where
  "is_False b = (b = PyBool False)"

text \<open>\<^verbatim>\<open>numpy.sign\<close> on an integer.\<close>

definition np_sign :: "int \<Rightarrow> int" where
  "np_sign x = (if x < 0 then - 1 else if x = 0 then 0 else 1)"

text \<open>\<^verbatim>\<open>spaces.Discrete(n).contains(x)\<close> and \<^verbatim>\<open>spaces.MultiDiscrete(nvec).contains(x)\<close>
  on integers.\<close>

definition Discrete_contains :: "nat \<Rightarrow> int \<Rightarrow> bool" where
  "Discrete_contains n x = (0 \<le> x \<and> x < int n)"

definition MultiDiscrete_contains :: "nat list \<Rightarrow> int list \<Rightarrow> bool" where
  "MultiDiscrete_contains nvec x = list_all2 (\<lambda>v n. 0 \<le> v \<and> v < int n) x nvec"

text \<open>\<^verbatim>\<open>seeding.np_random(seed)\<close>: the seed actually used is the given one reduced to
  eight bytes, or one read from the operating system (\<open>entropy\<close>) when none is given;
  \<open>mk\<close> is the construction of a \<^verbatim>\<open>RandomState\<close> from that seed. gym refuses a negative
  seed before anything else, so a seed is a natural number here.\<close>

definition seeding_np_random :: "(nat \<Rightarrow> rng) \<Rightarrow> nat \<Rightarrow> nat option \<Rightarrow> rng \<times> nat" where
  "seeding_np_random mk entropy sd =
     (let s = (case sd of None \<Rightarrow> entropy | Some v \<Rightarrow> v mod 2 ^ 64) in (mk s, s))"

section \<open>The environment \<^verbatim>\<open>Easy21\<close>\<close>

text \<open>The fields of an \<^verbatim>\<open>Easy21\<close> object that its methods read or write:
  \<^verbatim>\<open>self.score["player"]\<close>, \<^verbatim>\<open>self.score["dealer"]\<close> and \<^verbatim>\<open>self.np_random\<close>. A sum is a
  Python \<^verbatim>\<open>int\<close> as long as it is the card dealt by \<^verbatim>\<open>reset\<close>, and a \<^verbatim>\<open>numpy.int64\<close>
  from the first card added to it.\<close>

record env =
  score_player :: number
  score_dealer :: number
  np_random :: rng

text \<open>Both \<^verbatim>\<open>assert\<close> statements raise \<^verbatim>\<open>AssertionError\<close>; the message tells them
  apart (the check of the action has none).\<close>

datatype error = AssertionError string

text \<open>\<^verbatim>\<open>self.action_space = spaces.Discrete(2)\<close> and
  \<^verbatim>\<open>self.observation_space = spaces.MultiDiscrete([22, 11])\<close>.\<close>

definition action_space_contains :: "int \<Rightarrow> bool" where
  "action_space_contains action = Discrete_contains 2 action"

definition observation_space_contains :: "number \<times> number \<Rightarrow> bool" where
  "observation_space_contains ob =
     MultiDiscrete_contains [22, 11] [int_of (fst ob), int_of (snd ob)]"

definition get_observation :: "env \<Rightarrow> number \<times> number" where
  "get_observation e = (score_player e, score_dealer e)"

text \<open>\<^verbatim>\<open>return score < 1 or score > 21\<close>: the result is of the kind of the comparisons.\<close>

definition is_bust :: "number \<Rightarrow> boolean" where
  "is_bust score =
     (case score of
        PyInt w \<Rightarrow> PyBool (sint w < 1 \<or> sint w > 21)
      | NpInt64 w \<Rightarrow> NpBool (sint w < 1 \<or> sint w > 21))"

definition seed :: "(nat \<Rightarrow> rng) \<Rightarrow> nat \<Rightarrow> nat option \<Rightarrow> env \<Rightarrow> nat list \<times> env" where
  "seed mk entropy sd e =
     (let (g, s) = seeding_np_random mk entropy sd in ([s], e\<lparr>np_random := g\<rparr>))"

definition draw_hand :: "env \<Rightarrow> (number \<times> number) \<times> env" where
  "draw_hand e =
     (let (p, g) = randint 2 11 (np_random e);
          (d, g') = randint 2 11 g;
          e' = e\<lparr>score_player := PyInt (word_of_int p), score_dealer := PyInt (word_of_int d),
                   np_random := g'\<rparr>
      in (get_observation e', e'))"

text \<open>The card is \<^verbatim>\<open>card_type * card_idx\<close>, a \<^verbatim>\<open>numpy.int64\<close> between \<open>-10\<close> and \<open>10\<close>,
  given here by its value.\<close>

definition draw_card :: "env \<Rightarrow> int \<times> env" where
  "draw_card e =
     (let (card_type, g) = choice (- 1, 1) (3333, 6667) (np_random e);
          (card_idx, g') = randint 2 11 g
      in (card_type * card_idx, e\<lparr>np_random := g'\<rparr>))"

text \<open>In the dealer's branch the guard is \<^verbatim>\<open>assert self._is_bust(...) is False\<close>, a test
  of identity. \<^verbatim>\<open>numpy.sign\<close> is only reached with both sums between 1 and 21, where their
  difference is exact in either kind of integer.\<close>

definition get_reward_and_terminator :: "string \<Rightarrow> env \<Rightarrow> error + int \<times> bool" where
  "get_reward_and_terminator caller e =
     (if caller = ''player'' then
        (if truth (is_bust (score_player e)) then Inr (- 1, True) else Inr (0, False))
      else if \<not> is_False (is_bust (score_player e)) then
        Inl (AssertionError ''Player already goes bust.'')
      else Inr (if truth (is_bust (score_dealer e)) then 1
                else np_sign (int_of (score_player e) - int_of (score_dealer e)), True))"

definition reset :: "env \<Rightarrow> (number \<times> number) \<times> env" where
  "reset e = draw_hand e"

text \<open>\<^verbatim>\<open>self.score["player"] += self._draw_card()\<close> and the body of the dealer's loop,
  \<^verbatim>\<open>self.score["dealer"] += self._draw_card()\<close>.\<close>

definition player_draw :: "env \<Rightarrow> env" where
  "player_draw e = (let (c, e') = draw_card e in e'\<lparr>score_player := np_add (score_player e') c\<rparr>)"

definition dealer_draw :: "env \<Rightarrow> env" where
  "dealer_draw e = (let (c, e') = draw_card e in e'\<lparr>score_dealer := np_add (score_dealer e') c\<rparr>)"

text \<open>\<^verbatim>\<open>while 1 <= self.score["dealer"] < 17: self.score["dealer"] += self._draw_card()\<close>.
  Nothing in the loop bounds the number of draws, so not returning is the value
  \<open>None\<close>.\<close>

partial_function (option) dealer_loop :: "env \<Rightarrow> env option" where
  "dealer_loop e =
     (if 1 \<le> int_of (score_dealer e) \<and> int_of (score_dealer e) < 17
      then dealer_loop (dealer_draw e)
      else Some e)"

text \<open>\<^verbatim>\<open>step\<close> returns the observation, the reward and the flag \<^verbatim>\<open>done\<close> (its fourth
  component is always the empty dictionary), or raises; either way the object keeps
  the state it has reached, which is returned beside the result.\<close>

definition step ::
  "int \<Rightarrow> env \<Rightarrow> ((error + (number \<times> number) \<times> int \<times> bool) \<times> env) option" where
  "step action e =
     (if \<not> action_space_contains action then Some (Inl (AssertionError ''''), e)
      else if action \<noteq> 0 then
        (let e' = player_draw e in
         case get_reward_and_terminator ''player'' e' of
           Inl err \<Rightarrow> Some (Inl err, e')
         | Inr (reward, done) \<Rightarrow> Some (Inr (get_observation e', reward, done), e'))
      else
        (case dealer_loop e of
           None \<Rightarrow> None
         | Some e' \<Rightarrow>
             (case get_reward_and_terminator ''dealer'' e' of
                Inl err \<Rightarrow> Some (Inl err, e')
              | Inr (reward, done) \<Rightarrow> Some (Inr (get_observation e', reward, done), e'))))"

text \<open>\<^verbatim>\<open>__init__\<close>: \<^verbatim>\<open>self.seed()\<close> with no seed, the two scores set to \<^verbatim>\<open>None\<close>, then
  \<^verbatim>\<open>self.reset()\<close>, which overwrites both before anything reads them (the \<open>0\<close>
  below stands for that \<^verbatim>\<open>None\<close>).\<close>

definition init :: "(nat \<Rightarrow> rng) \<Rightarrow> nat \<Rightarrow> env" where
  "init mk entropy =
     snd (reset \<lparr>score_player = PyInt 0, score_dealer = PyInt 0,
                 np_random = fst (seeding_np_random mk entropy None)\<rparr>)"

section \<open>Notions the statements need\<close>

text \<open>The dealer's loop cut off after \<open>n\<close> iterations: \<open>None\<close> when the sum is
  still inside \<open>[1, 17)\<close> at that point.\<close>

fun dealer_loop_bounded :: "nat \<Rightarrow> env \<Rightarrow> env option" where
  "dealer_loop_bounded 0 e =
     (if 1 \<le> int_of (score_dealer e) \<and> int_of (score_dealer e) < 17 then None else Some e)"
| "dealer_loop_bounded (Suc n) e =
     (if 1 \<le> int_of (score_dealer e) \<and> int_of (score_dealer e) < 17
      then dealer_loop_bounded n (dealer_draw e)
      else Some e)"

text \<open>The next \<open>n\<close> cards of the deck are black.\<close>

fun next_black :: "nat \<Rightarrow> env \<Rightarrow> bool" where
  "next_black 0 e = True"
| "next_black (Suc n) e = (0 < fst (draw_card e) \<and> next_black n (snd (draw_card e)))"

text \<open>A caller driving the engine with a list of actions; every call's result is
  recorded, a raised error included, and a call that does not return ends the record.\<close>

fun run :: "env \<Rightarrow> int list \<Rightarrow> (error + (number \<times> number) \<times> int \<times> bool) list option" where
  "run e [] = Some []"
| "run e (a # as) =
     (case step a e of
        None \<Rightarrow> None
      | Some (r, e') \<Rightarrow> (case run e' as of None \<Rightarrow> None | Some rs \<Rightarrow> Some (r # rs)))"

section \<open>Basic facts\<close>

lemma truth_is_bust: "truth (is_bust x) = (int_of x < 1 \<or> int_of x > 21)"
  by (cases x) (simp_all add: is_bust_def int_of_def)

lemma is_False_is_bust:
  "is_False (is_bust x) = (\<exists>w. x = PyInt w \<and> \<not> (sint w < 1 \<or> sint w > 21))"
  by (cases x) (auto simp: is_bust_def is_False_def)

lemma is_bust_boundaries:
  "\<not> truth (is_bust (PyInt 1)) \<and> \<not> truth (is_bust (PyInt 21))
   \<and> truth (is_bust (PyInt 0)) \<and> truth (is_bust (PyInt 22))"
  by (simp add: is_bust_def)

lemma sint_word_of_int_64:
  "- (2 ^ 63) \<le> k \<Longrightarrow> k < 2 ^ 63 \<Longrightarrow> sint (word_of_int k :: 64 word) = k"
  by (simp add: sint_sbintrunc' signed_take_bit_int_eq_self)

lemma np_add_exact:
  assumes "- (2 ^ 63) \<le> int_of x + c" and "int_of x + c < 2 ^ 63"
  shows "int_of (np_add x c) = int_of x + c"
proof -
  have "raw x + word_of_int c = word_of_int (sint (raw x) + c)"
    by simp
  with assms show ?thesis
    by (simp add: np_add_def int_of_def sint_word_of_int_64 del: of_int_add)
qed

lemma randint_2_11_range: "2 \<le> fst (randint 2 11 g) \<and> fst (randint 2 11 g) \<le> 10"
  by (simp add: randint_def)

lemma int_of_dealt: "int_of (PyInt (word_of_int (fst (randint 2 11 g)))) = fst (randint 2 11 g)"
  using randint_2_11_range [of g] by (simp add: int_of_def sint_word_of_int_64)

lemma choice_card_type:
  "fst (choice (- 1, 1) (3333, 6667) g) = - 1 \<or> fst (choice (- 1, 1) (3333, 6667) g) = 1"
  by (simp add: choice_def)

lemma draw_card_fst:
  "fst (draw_card e) =
     fst (choice (- 1, 1) (3333, 6667) (np_random e)) *
     fst (randint 2 11 (snd (choice (- 1, 1) (3333, 6667) (np_random e))))"
  by (simp add: draw_card_def Let_def split_def)

lemma draw_card_snd_scores:
  "score_player (snd (draw_card e)) = score_player e \<and> score_dealer (snd (draw_card e)) = score_dealer e"
  by (simp add: draw_card_def Let_def split_def)

lemma draw_card_magnitude: "2 \<le> \<bar>fst (draw_card e)\<bar> \<and> \<bar>fst (draw_card e)\<bar> \<le> 10"
proof -
  let ?g = "snd (choice (- 1, 1) (3333, 6667) (np_random e))"
  have m: "2 \<le> fst (randint 2 11 ?g) \<and> fst (randint 2 11 ?g) \<le> 10"
    by (rule randint_2_11_range)
  from choice_card_type [of "np_random e"] show ?thesis
  proof
    assume "fst (choice (- 1, 1) (3333, 6667) (np_random e)) = - 1"
    with m show ?thesis by (simp add: draw_card_fst)
  next
    assume "fst (choice (- 1, 1) (3333, 6667) (np_random e)) = 1"
    with m show ?thesis by (simp add: draw_card_fst)
  qed
qed

lemma dealer_draw_eq:
  "dealer_draw e = (snd (draw_card e))\<lparr>score_dealer := np_add (score_dealer e) (fst (draw_card e))\<rparr>"
  by (simp add: dealer_draw_def Let_def split_def draw_card_snd_scores)

lemma player_draw_eq:
  "player_draw e = (snd (draw_card e))\<lparr>score_player := np_add (score_player e) (fst (draw_card e))\<rparr>"
  by (simp add: player_draw_def Let_def split_def draw_card_snd_scores)

lemma dealer_loop_stop:
  "\<not> (1 \<le> int_of (score_dealer e) \<and> int_of (score_dealer e) < 17) \<Longrightarrow> dealer_loop e = Some e"
  by (subst dealer_loop.simps) auto

lemma dealer_loop_go:
  "1 \<le> int_of (score_dealer e) \<Longrightarrow> int_of (score_dealer e) < 17 \<Longrightarrow>
     dealer_loop e = dealer_loop (dealer_draw e)"
  by (subst dealer_loop.simps) auto

lemma dealer_loop_bounded_sound:
  "dealer_loop_bounded n e = Some e' \<Longrightarrow> dealer_loop e = Some e'"
proof (induction n arbitrary: e)
  case 0
  then show ?case by (auto split: if_splits simp: dealer_loop_stop)
next
  case (Suc n)
  show ?case
  proof (cases "1 \<le> int_of (score_dealer e) \<and> int_of (score_dealer e) < 17")
    case True
    with Suc.prems have "dealer_loop_bounded n (dealer_draw e) = Some e'" by simp
    then have "dealer_loop (dealer_draw e) = Some e'" by (rule Suc.IH)
    with True show ?thesis by (simp add: dealer_loop_go)
  next
    case False
    with Suc.prems show ?thesis by (auto simp: dealer_loop_stop)
  qed
qed

lemma dealer_loop_bounded_complete:
  assumes "dealer_loop e = Some e'"
  shows "\<exists>n. dealer_loop_bounded n e = Some e'"
proof (rule dealer_loop.raw_induct [where P = "\<lambda>e e'. \<exists>n. dealer_loop_bounded n e = Some e'", OF _ assms])
  fix f e e'
  assume IH: "\<And>x y. f x = Some y \<Longrightarrow> \<exists>n. dealer_loop_bounded n x = Some y"
    and body: "(if 1 \<le> int_of (score_dealer e) \<and> int_of (score_dealer e) < 17
                then f (dealer_draw e) else Some e) = Some e'"
  show "\<exists>n. dealer_loop_bounded n e = Some e'"
  proof (cases "1 \<le> int_of (score_dealer e) \<and> int_of (score_dealer e) < 17")
    case True
    with body have "f (dealer_draw e) = Some e'" by simp
    then obtain n where "dealer_loop_bounded n (dealer_draw e) = Some e'"
      using IH by blast
    with True have "dealer_loop_bounded (Suc n) e = Some e'" by simp
    then show ?thesis ..
  next
    case False
    with body have "dealer_loop_bounded 0 e = Some e'" by simp
    then show ?thesis ..
  qed
qed

lemma dealer_loop_bounded_exit:
  "dealer_loop_bounded n e = Some e' \<Longrightarrow>
     \<not> (1 \<le> int_of (score_dealer e') \<and> int_of (score_dealer e') < 17)"
  by (induction n e rule: dealer_loop_bounded.induct) (auto split: if_splits)

lemma dealer_loop_bounded_stop:
  "\<not> (1 \<le> int_of (score_dealer e) \<and> int_of (score_dealer e) < 17) \<Longrightarrow>
     dealer_loop_bounded n e = Some e"
  by (cases n) auto

lemma dealer_draw_player: "score_player (dealer_draw e) = score_player e"
  by (simp add: dealer_draw_eq draw_card_snd_scores)

lemma dealer_loop_bounded_player:
  "dealer_loop_bounded n e = Some e' \<Longrightarrow> score_player e' = score_player e"
  by (induction n e rule: dealer_loop_bounded.induct) (auto split: if_splits simp: dealer_draw_player)

lemma dealer_draw_dealer:
  assumes "- (2 ^ 63) + 10 \<le> int_of (score_dealer e)" and "int_of (score_dealer e) < 2 ^ 63 - 10"
  shows "int_of (score_dealer (dealer_draw e)) = int_of (score_dealer e) + fst (draw_card e)"
proof -
  from draw_card_magnitude [of e] assms
  have "- (2 ^ 63) \<le> int_of (score_dealer e) + fst (draw_card e)"
    and "int_of (score_dealer e) + fst (draw_card e) < 2 ^ 63"
    by linarith+
  then show ?thesis
    by (simp add: dealer_draw_eq np_add_exact)
qed

lemma dealer_draw_dealer_in_loop:
  assumes "1 \<le> int_of (score_dealer e)" and "int_of (score_dealer e) < 17"
  shows "int_of (score_dealer (dealer_draw e)) = int_of (score_dealer e) + fst (draw_card e)"
  using assms by (intro dealer_draw_dealer) simp_all

lemma draw_card_score_dealer:
  "draw_card (e\<lparr>score_dealer := d\<rparr>) = (fst (draw_card e), (snd (draw_card e))\<lparr>score_dealer := d\<rparr>)"
  by (simp add: draw_card_def Let_def split_def)

lemma next_black_score:
  "next_black n (e\<lparr>score_dealer := d\<rparr>) = next_black n e"
proof (induction n arbitrary: e d)
  case 0
  show ?case by simp
next
  case (Suc n)
  show ?case by (simp add: draw_card_score_dealer Suc.IH)
qed

lemma next_black_dealer_draw:
  "next_black (Suc n) e \<Longrightarrow> next_black n (dealer_draw e)"
  by (simp add: dealer_draw_eq next_black_score)

lemma black_draw_at_least_2: "0 < fst (draw_card e) \<Longrightarrow> 2 \<le> fst (draw_card e)"
  using draw_card_magnitude [of e] by simp

lemma dealer_loop_bounded_black:
  "next_black n e \<Longrightarrow>
   int_of (score_dealer e) < 1 \<or> 17 \<le> int_of (score_dealer e) + 2 * int n \<Longrightarrow>
     \<exists>e'. dealer_loop_bounded n e = Some e'"
proof (induction n arbitrary: e)
  case 0
  then show ?case by auto
next
  case (Suc n)
  show ?case
  proof (cases "1 \<le> int_of (score_dealer e) \<and> int_of (score_dealer e) < 17")
    case False
    then show ?thesis by auto
  next
    case True
    from Suc.prems(1) have c: "2 \<le> fst (draw_card e)"
      by (simp add: black_draw_at_least_2)
    from Suc.prems(1) have nb: "next_black n (dealer_draw e)"
      by (rule next_black_dealer_draw)
    from True Suc.prems(2) c have "17 \<le> int_of (score_dealer (dealer_draw e)) + 2 * int n"
      by (simp add: dealer_draw_dealer_in_loop)
    then have "\<exists>e'. dealer_loop_bounded n (dealer_draw e) = Some e'"
      using nb Suc.IH by blast
    with True show ?thesis by simp
  qed
qed

lemma draw_card_black_2:
  "np_random e = cycle [3333, 0, 0, 0] \<Longrightarrow>
     fst (draw_card e) = 2 \<and> np_random (snd (draw_card e)) = cycle [0, 0, 3333, 0]"
  by (simp add: draw_card_def choice_def randint_def)

lemma draw_card_red_2:
  "np_random e = cycle [0, 0, 3333, 0] \<Longrightarrow>
     fst (draw_card e) = - 2 \<and> np_random (snd (draw_card e)) = cycle [3333, 0, 0, 0]"
  by (simp add: draw_card_def choice_def randint_def)

lemma dealer_loop_alternating:
  "dealer_loop \<lparr>score_player = p, score_dealer = PyInt 5, np_random = cycle [3333, 0, 0, 0]\<rparr> = None"
proof -
  let ?a = "cycle [3333, 0, 0, 0::nat]" and ?b = "cycle [0, 0, 3333, 0::nat]"
  let ?Inv = "\<lambda>e. int_of (score_dealer e) = 5 \<and> np_random e = ?a
                \<or> int_of (score_dealer e) = 7 \<and> np_random e = ?b"
  have in_range: "1 \<le> int_of (score_dealer e) \<and> int_of (score_dealer e) < 17" if "?Inv e" for e
    using that by auto
  have step_inv: "?Inv (dealer_draw e)" if i: "?Inv e" for e
  proof -
    from in_range [OF i]
    have d: "int_of (score_dealer (dealer_draw e)) = int_of (score_dealer e) + fst (draw_card e)"
      by (simp add: dealer_draw_dealer_in_loop)
    have g: "np_random (dealer_draw e) = np_random (snd (draw_card e))"
      by (simp add: dealer_draw_eq)
    from i show ?thesis
    proof
      assume "int_of (score_dealer e) = 5 \<and> np_random e = ?a"
      with d g draw_card_black_2 [of e] show ?thesis by simp
    next
      assume "int_of (score_dealer e) = 7 \<and> np_random e = ?b"
      with d g draw_card_red_2 [of e] show ?thesis by simp
    qed
  qed
  have never: "\<not> ?Inv e" if r: "dealer_loop e = Some e'" for e e'
  proof (rule dealer_loop.raw_induct [where P = "\<lambda>e e'. \<not> ?Inv e", OF _ r])
    fix f e e'
    assume IH: "\<And>x y. f x = Some y \<Longrightarrow> \<not> ?Inv x"
      and body: "(if 1 \<le> int_of (score_dealer e) \<and> int_of (score_dealer e) < 17
                  then f (dealer_draw e) else Some e) = Some e'"
    show "\<not> ?Inv e"
    proof
      assume i: "?Inv e"
      with body in_range [OF i] have "f (dealer_draw e) = Some e'" by simp
      then have "\<not> ?Inv (dealer_draw e)" by (rule IH)
      with step_inv [OF i] show False by blast
    qed
  qed
  let ?e = "\<lparr>score_player = p, score_dealer = PyInt 5, np_random = ?a\<rparr>"
  show ?thesis
  proof (rule ccontr)
    assume "dealer_loop ?e \<noteq> None"
    then obtain e' where "dealer_loop ?e = Some e'"
      by blast
    from never [OF this] show False by (simp add: int_of_def)
  qed
qed

lemma player_draw_dealer: "score_dealer (player_draw e) = score_dealer e"
  by (simp add: player_draw_eq draw_card_snd_scores)

lemma reset_after_seed:
  "reset (e1\<lparr>np_random := g\<rparr>) = reset (e2\<lparr>np_random := g\<rparr>)"
  by (cases e1, cases e2) (simp add: reset_def draw_hand_def Let_def split_def get_observation_def)

lemma reset_observation_in_space: "observation_space_contains (fst (reset e))"
  using int_of_dealt [of "np_random e"] int_of_dealt [of "snd (randint 2 11 (np_random e))"]
    randint_2_11_range [of "np_random e"] randint_2_11_range [of "snd (randint 2 11 (np_random e))"]
  by (simp add: reset_def draw_hand_def Let_def split_def get_observation_def
      observation_space_contains_def MultiDiscrete_contains_def)

lemma nonterminal_observation_in_space:
  assumes "observation_space_contains (get_observation e)"
    and "step action e = Some (Inr (ob, reward, False), e')"
  shows "observation_space_contains ob"
proof -
  from assms(2) have a: "action_space_contains action \<and> action \<noteq> 0"
    by (auto simp: step_def get_reward_and_terminator_def Let_def
        split: if_splits option.splits)
  with assms(2) have "\<not> truth (is_bust (score_player (player_draw e)))"
      and "ob = get_observation (player_draw e)"
    by (auto simp: step_def get_reward_and_terminator_def Let_def split: if_splits)
  moreover have "score_dealer (player_draw e) = score_dealer e"
    by (rule player_draw_dealer)
  ultimately show ?thesis using assms(1)
    by (simp add: observation_space_contains_def MultiDiscrete_contains_def
        get_observation_def truth_is_bust)
qed

text \<open>What the guard of the dealer's branch does for each kind of player's sum.\<close>

lemma dealer_resolution_raises_when_bust:
  "truth (is_bust (score_player e)) \<Longrightarrow>
     get_reward_and_terminator ''dealer'' e = Inl (AssertionError ''Player already goes bust.'')"
  by (cases "score_player e") (auto simp: get_reward_and_terminator_def is_bust_def is_False_def)

lemma dealer_resolution_raises_on_int64:
  "score_player e = NpInt64 w \<Longrightarrow>
     get_reward_and_terminator ''dealer'' e = Inl (AssertionError ''Player already goes bust.'')"
  by (simp add: get_reward_and_terminator_def is_bust_def is_False_def)


section \<open>The claims\<close>




text \<open>
  Claim C2, as amended. In every state, \<^verbatim>\<open>step\<close> with the action Hit (1) returns: it adds
  one signed card to the player's sum in the arithmetic of \<^verbatim>\<open>numpy.int64\<close>, which is the
  exact sum whenever that lies in \<open>[-2\<^sup>6\<^sup>3, 2\<^sup>6\<^sup>3)\<close> and wraps around otherwise; when the
  new sum is bust the reward is \<open>-1\<close> and \<^verbatim>\<open>done\<close> is true, otherwise the reward is \<open>0\<close> and
  \<^verbatim>\<open>done\<close> is false. (The counterexample: at the sum \<open>2\<^sup>6\<^sup>3 - 5\<close> a black 10 gives
  \<open>-9223372036854775803\<close>.)
\<close>

theorem step_hit:
  "step 1 e =
     Some (Inr ((np_add (score_player e) (fst (draw_card e)), score_dealer e),
                (if truth (is_bust (np_add (score_player e) (fst (draw_card e)))) then - 1 else 0),
                truth (is_bust (np_add (score_player e) (fst (draw_card e))))),
           (snd (draw_card e))\<lparr>score_player := np_add (score_player e) (fst (draw_card e))\<rparr>)
   \<and> 2 \<le> \<bar>fst (draw_card e)\<bar> \<and> \<bar>fst (draw_card e)\<bar> \<le> 10
   \<and> (- (2 ^ 63) \<le> int_of (score_player e) + fst (draw_card e)
        \<and> int_of (score_player e) + fst (draw_card e) < 2 ^ 63 \<longrightarrow>
      int_of (np_add (score_player e) (fst (draw_card e)))
        = int_of (score_player e) + fst (draw_card e))"
proof -
  have "step 1 e =
     Some (Inr ((np_add (score_player e) (fst (draw_card e)), score_dealer e),
                (if truth (is_bust (np_add (score_player e) (fst (draw_card e)))) then - 1 else 0),
                truth (is_bust (np_add (score_player e) (fst (draw_card e))))),
           (snd (draw_card e))\<lparr>score_player := np_add (score_player e) (fst (draw_card e))\<rparr>)"
    by (simp add: step_def action_space_contains_def Discrete_contains_def player_draw_eq
        get_reward_and_terminator_def get_observation_def draw_card_snd_scores)
  with draw_card_magnitude [of e] show ?thesis
    by (simp add: np_add_exact)
qed

theorem step_hit_witness:
  "- (2 ^ 63) \<le> (10::int) + 5 \<and> (10::int) + 5 < 2 ^ 63
   \<and> int_of (np_add (PyInt 10) 5) = 15
   \<and> step 1 \<lparr>score_player = PyInt 10, score_dealer = PyInt 4, np_random = 3333 ## 3 ## cycle [0]\<rparr>
       = Some (Inr ((NpInt64 15, PyInt 4), 0, False),
               \<lparr>score_player = NpInt64 15, score_dealer = PyInt 4, np_random = cycle [0]\<rparr>)"
proof -
  let ?e = "\<lparr>score_player = PyInt 10, score_dealer = PyInt 4, np_random = 3333 ## 3 ## cycle [0]\<rparr>"
  have dc: "draw_card ?e = (5, \<lparr>score_player = PyInt 10, score_dealer = PyInt 4, np_random = cycle [0]\<rparr>)"
    by (simp add: draw_card_def choice_def randint_def)
  have v: "int_of (PyInt 10) = 10" by (simp add: int_of_def)
  from step_hit [of ?e] show ?thesis
    by (simp add: dc v np_add_def is_bust_def int_of_def)
qed

theorem step_hit_wraps_counterexample:
  "step 1 \<lparr>score_player = PyInt 9223372036854775803, score_dealer = PyInt 5,
            np_random = cycle [9998]\<rparr>
     = Some (Inr ((NpInt64 (- 9223372036854775803), PyInt 5), - 1, True),
             \<lparr>score_player = NpInt64 (- 9223372036854775803), score_dealer = PyInt 5,
                np_random = cycle [9998]\<rparr>)
   \<and> int_of (PyInt 9223372036854775803) = 9223372036854775803
   \<and> fst (draw_card \<lparr>score_player = PyInt 9223372036854775803, score_dealer = PyInt 5,
            np_random = cycle [9998]\<rparr>) = 10
   \<and> int_of (NpInt64 (- 9223372036854775803)) = - 9223372036854775803
   \<and> - 9223372036854775803 \<noteq> (9223372036854775803::int) + 10"
proof -
  let ?e = "\<lparr>score_player = PyInt 9223372036854775803, score_dealer = PyInt 5,
            np_random = cycle [9998]\<rparr>"
  have dc: "draw_card ?e = (10, ?e)"
    by (simp add: draw_card_def choice_def randint_def)
  have a: "np_add (PyInt 9223372036854775803) 10 = NpInt64 (- 9223372036854775803)"
    by (simp add: np_add_def)
  have b: "truth (is_bust (NpInt64 (- 9223372036854775803)))"
    by (simp add: is_bust_def)
  have s: "step 1 ?e = Some (Inr ((NpInt64 (- 9223372036854775803), PyInt 5), - 1, True),
             \<lparr>score_player = NpInt64 (- 9223372036854775803), score_dealer = PyInt 5,
                np_random = cycle [9998]\<rparr>)"
    using b by (simp add: step_def action_space_contains_def Discrete_contains_def player_draw_def dc a
        get_reward_and_terminator_def get_observation_def)
  show ?thesis
    using s by (simp add: dc int_of_def)
qed

text \<open>
  Claim C3, as amended. Every card drawn in the game (by a hit or by the dealer) is
  \<^verbatim>\<open>card_type * card_idx\<close> with \<^verbatim>\<open>card_idx = randint(2, 11)\<close>: its magnitude is an integer of
  \<open>[2, 10]\<close>, the range of the first deal, positive for a black card and negative for a
  red one. Every magnitude \<open>m\<close> of \<open>[2, 10]\<close> comes out, with either sign, for some
  state of the generator. (The counterexample: no state of the generator gives a card of
  magnitude 1.)
\<close>

theorem draw_card_outcomes:
  "2 \<le> \<bar>fst (draw_card e)\<bar> \<and> \<bar>fst (draw_card e)\<bar> \<le> 10
   \<and> (2 \<le> m \<and> m \<le> 10 \<longrightarrow>
        fst (draw_card (e\<lparr>np_random := 3333 ## nat (m - 2) ## g\<rparr>)) = m
        \<and> fst (draw_card (e\<lparr>np_random := 0 ## nat (m - 2) ## g\<rparr>)) = - m)"
proof -
  have "fst (draw_card (e\<lparr>np_random := 3333 ## nat (m - 2) ## g\<rparr>)) = m
        \<and> fst (draw_card (e\<lparr>np_random := 0 ## nat (m - 2) ## g\<rparr>)) = - m"
    if "2 \<le> m \<and> m \<le> 10"
  proof -
    from that have "nat (m - 2) < 9" by arith
    then have "nat (m - 2) mod 9 = nat (m - 2)" by simp
    with that show ?thesis
      by (simp add: draw_card_def choice_def randint_def)
  qed
  with draw_card_magnitude [of e] show ?thesis by blast
qed

theorem draw_card_outcomes_witness:
  "(2::int) \<le> 2 \<and> (2::int) \<le> 10
   \<and> fst (draw_card \<lparr>score_player = PyInt 5, score_dealer = PyInt 5,
                       np_random = 3333 ## 0 ## sconst 0\<rparr>) = 2
   \<and> fst (draw_card \<lparr>score_player = PyInt 5, score_dealer = PyInt 5,
                       np_random = 0 ## 0 ## sconst 0\<rparr>) = - 2"
  using draw_card_outcomes [of "\<lparr>score_player = PyInt 5, score_dealer = PyInt 5, np_random = sconst 0\<rparr>"
      2 "sconst 0"]
  by simp

theorem draw_card_magnitude_one_counterexample:
  "\<not> (\<exists>e. \<bar>fst (draw_card e)\<bar> = 1)"
proof
  assume "\<exists>e. \<bar>fst (draw_card e)\<bar> = 1"
  then obtain e where "\<bar>fst (draw_card e)\<bar> = 1" ..
  with draw_card_magnitude [of e] show False by simp
qed

text \<open>
  Claim C4. For every generator, \<^verbatim>\<open>reset\<close> returns (it has no error path) the pair of
  the two new sums, each in \<open>[2, 10]\<close>, and what it returns does not depend on the sums
  the engine held before.
\<close>

theorem reset_ok:
  "2 \<le> int_of (fst (fst (reset e))) \<and> int_of (fst (fst (reset e))) \<le> 10
   \<and> 2 \<le> int_of (snd (fst (reset e))) \<and> int_of (snd (fst (reset e))) \<le> 10
   \<and> fst (reset e) = get_observation (snd (reset e))
   \<and> reset (e\<lparr>score_player := p, score_dealer := d\<rparr>) = reset e"
  using randint_2_11_range [of "np_random e"] randint_2_11_range [of "snd (randint 2 11 (np_random e))"]
    int_of_dealt [of "np_random e"] int_of_dealt [of "snd (randint 2 11 (np_random e))"]
  by (simp add: reset_def draw_hand_def Let_def split_def get_observation_def)

text \<open>
  Claim C5. An action outside \<open>{0, 1}\<close> makes \<^verbatim>\<open>step\<close> raise the assertion on the action
  with the state untouched; an action in \<open>{0, 1}\<close> passes that check, so \<^verbatim>\<open>step\<close> does
  not end in that error.
\<close>

theorem step_action_check:
  "(action \<notin> {0, 1} \<longrightarrow> step action e = Some (Inl (AssertionError ''''), e))
   \<and> (action \<in> {0, 1} \<longrightarrow> action_space_contains action
        \<and> step action e \<noteq> Some (Inl (AssertionError ''''), e'))"
  by (auto simp: step_def action_space_contains_def Discrete_contains_def
      get_reward_and_terminator_def Let_def split: option.splits)

theorem step_action_check_witness:
  "(3::int) \<notin> {0, 1}
   \<and> step 3 \<lparr>score_player = PyInt 5, score_dealer = PyInt 5, np_random = sconst 0\<rparr>
       = Some (Inl (AssertionError ''''),
               \<lparr>score_player = PyInt 5, score_dealer = PyInt 5, np_random = sconst 0\<rparr>)
   \<and> (1::int) \<in> {0, 1} \<and> action_space_contains 1
   \<and> step 1 \<lparr>score_player = PyInt 5, score_dealer = PyInt 5, np_random = sconst 0\<rparr>
       \<noteq> Some (Inl (AssertionError ''''),
               \<lparr>score_player = PyInt 5, score_dealer = PyInt 5, np_random = sconst 0\<rparr>)"
  using step_action_check [of 3 "\<lparr>score_player = PyInt 5, score_dealer = PyInt 5, np_random = sconst 0\<rparr>"]
    step_action_check [of 1 "\<lparr>score_player = PyInt 5, score_dealer = PyInt 5, np_random = sconst 0\<rparr>"
      "\<lparr>score_player = PyInt 5, score_dealer = PyInt 5, np_random = sconst 0\<rparr>"]
  by simp

text \<open>
  Claim C6 at a failing input. \<^verbatim>\<open>reset\<close> deals 10 and 10; a hit draws a black 5, so the
  player's sum is the \<^verbatim>\<open>numpy.int64\<close> 15, which is not bust; the player sticks, the dealer
  draws a black 9 and stands at 19; then the guard
  \<^verbatim>\<open>assert self._is_bust(self.score["player"]) is False\<close> raises "Player already goes bust.",
  because \<^verbatim>\<open>_is_bust\<close> of a \<^verbatim>\<open>numpy.int64\<close> is a \<^verbatim>\<open>numpy.bool_\<close>, never the object
  \<^verbatim>\<open>False\<close>. With the same sums held as Python integers the resolution returns the reward
  \<open>-1\<close>.
\<close>

theorem dealer_resolution_after_hit:
  "reset \<lparr>score_player = PyInt 0, score_dealer = PyInt 0,
           np_random = 8 ## 8 ## 3333 ## 3 ## 3333 ## 7 ## cycle [0]\<rparr>
     = ((PyInt 10, PyInt 10),
        \<lparr>score_player = PyInt 10, score_dealer = PyInt 10,
           np_random = 3333 ## 3 ## 3333 ## 7 ## cycle [0]\<rparr>)
   \<and> run \<lparr>score_player = PyInt 10, score_dealer = PyInt 10,
            np_random = 3333 ## 3 ## 3333 ## 7 ## cycle [0]\<rparr> [1, 0]
     = Some [Inr ((NpInt64 15, PyInt 10), 0, False),
             Inl (AssertionError ''Player already goes bust.'')]
   \<and> \<not> truth (is_bust (NpInt64 15))
   \<and> get_reward_and_terminator ''dealer''
        \<lparr>score_player = NpInt64 15, score_dealer = NpInt64 19, np_random = cycle [0]\<rparr>
     = Inl (AssertionError ''Player already goes bust.'')
   \<and> get_reward_and_terminator ''dealer''
        \<lparr>score_player = PyInt 15, score_dealer = PyInt 19, np_random = cycle [0]\<rparr>
     = Inr (- 1, True)"
proof -
  let ?e0 = "\<lparr>score_player = PyInt 10, score_dealer = PyInt 10,
           np_random = 3333 ## 3 ## 3333 ## 7 ## cycle [0]\<rparr>"
  let ?e1 = "\<lparr>score_player = NpInt64 15, score_dealer = PyInt 10,
           np_random = 3333 ## 7 ## cycle [0]\<rparr>"
  let ?e2 = "\<lparr>score_player = NpInt64 15, score_dealer = NpInt64 19, np_random = cycle [0]\<rparr>"
  have r: "reset \<lparr>score_player = PyInt 0, score_dealer = PyInt 0,
           np_random = 8 ## 8 ## 3333 ## 3 ## 3333 ## 7 ## cycle [0]\<rparr> = ((PyInt 10, PyInt 10), ?e0)"
    by (simp add: reset_def draw_hand_def randint_def get_observation_def)
  have p1: "player_draw ?e0 = ?e1"
    by (simp add: player_draw_def draw_card_def choice_def randint_def np_add_def)
  have nb: "\<not> truth (is_bust (NpInt64 15))"
    by (simp add: is_bust_def)
  have s1: "step 1 ?e0 = Some (Inr ((NpInt64 15, PyInt 10), 0, False), ?e1)"
    using nb by (simp add: step_def action_space_contains_def Discrete_contains_def p1
        get_reward_and_terminator_def get_observation_def)
  have d1: "dealer_draw ?e1 = ?e2"
    by (simp add: dealer_draw_def draw_card_def choice_def randint_def np_add_def)
  have "dealer_loop_bounded (Suc 0) ?e1 = Some ?e2"
    by (simp add: int_of_def d1)
  then have l: "dealer_loop ?e1 = Some ?e2"
    by (rule dealer_loop_bounded_sound)
  have g: "get_reward_and_terminator ''dealer'' ?e2 = Inl (AssertionError ''Player already goes bust.'')"
    by (simp add: dealer_resolution_raises_on_int64)
  have s0: "step 0 ?e1 = Some (Inl (AssertionError ''Player already goes bust.''), ?e2)"
    by (simp add: step_def action_space_contains_def Discrete_contains_def l g)
  have py: "get_reward_and_terminator ''dealer''
        \<lparr>score_player = PyInt 15, score_dealer = PyInt 19, np_random = cycle [0]\<rparr> = Inr (- 1, True)"
    by (simp add: get_reward_and_terminator_def is_bust_def is_False_def np_sign_def int_of_def)
  have "run ?e0 [1, 0] = Some [Inr ((NpInt64 15, PyInt 10), 0, False),
             Inl (AssertionError ''Player already goes bust.'')]"
    by (simp add: s1 s0)
  with r nb g py show ?thesis by simp
qed

text \<open>
  Claim C7, as amended. Every iteration of the dealer's loop changes the dealer's sum by
  a card of magnitude 2 to 10: a black card raises it, a red card lowers it (this holds of
  every sum at least 10 away from the 64-bit bounds, and so of every sum in \<open>[1, 17)\<close>), and
  the loop goes on while the sum stays in \<open>[1, 17)\<close>. When the next eight cards are black
  the loop ends within eight iterations, with a sum outside \<open>[1, 17)\<close>. (The counterexample:
  from 10 a red 2 gives 8, neither higher nor bust; and on the deck that alternates a black 2
  and a red 2 the loop started at 5 never ends, so neither does \<^verbatim>\<open>step\<close>.)
\<close>

theorem dealer_loop_progress:
  "score_dealer (dealer_draw e) = np_add (score_dealer e) (fst (draw_card e))
   \<and> (- (2 ^ 63) + 10 \<le> int_of (score_dealer e) \<and> int_of (score_dealer e) < 2 ^ 63 - 10 \<longrightarrow>
        2 \<le> \<bar>int_of (score_dealer (dealer_draw e)) - int_of (score_dealer e)\<bar>
        \<and> \<bar>int_of (score_dealer (dealer_draw e)) - int_of (score_dealer e)\<bar> \<le> 10
        \<and> (0 < fst (draw_card e) \<longrightarrow>
              int_of (score_dealer e) < int_of (score_dealer (dealer_draw e)))
        \<and> (fst (draw_card e) < 0 \<longrightarrow>
              int_of (score_dealer (dealer_draw e)) < int_of (score_dealer e)))
   \<and> (next_black 8 e \<longrightarrow>
        (\<exists>e'. dealer_loop_bounded 8 e = Some e' \<and> dealer_loop e = Some e'
              \<and> \<not> (1 \<le> int_of (score_dealer e') \<and> int_of (score_dealer e') < 17)))"
proof -
  have "\<exists>e'. dealer_loop_bounded 8 e = Some e' \<and> dealer_loop e = Some e'
              \<and> \<not> (1 \<le> int_of (score_dealer e') \<and> int_of (score_dealer e') < 17)"
    if nb: "next_black 8 e"
  proof -
    have "int_of (score_dealer e) < 1 \<or> 17 \<le> int_of (score_dealer e) + 2 * int 8" by arith
    with nb obtain e' where b: "dealer_loop_bounded 8 e = Some e'"
      using dealer_loop_bounded_black by blast
    then show ?thesis
      using dealer_loop_bounded_sound dealer_loop_bounded_exit by blast
  qed
  moreover have "score_dealer (dealer_draw e) = np_add (score_dealer e) (fst (draw_card e))"
    by (simp add: dealer_draw_eq)
  moreover have "int_of (score_dealer (dealer_draw e)) = int_of (score_dealer e) + fst (draw_card e)"
    if "- (2 ^ 63) + 10 \<le> int_of (score_dealer e) \<and> int_of (score_dealer e) < 2 ^ 63 - 10"
    using that by (simp add: dealer_draw_dealer)
  ultimately show ?thesis
    using draw_card_magnitude [of e] by simp
qed

theorem dealer_loop_progress_witness:
  "- (2 ^ 63) + 10 \<le> int_of (PyInt 5) \<and> int_of (PyInt 5) < 2 ^ 63 - 10
   \<and> 0 < fst (draw_card \<lparr>score_player = PyInt 14, score_dealer = PyInt 5, np_random = cycle [9998]\<rparr>)
   \<and> score_dealer (dealer_draw \<lparr>score_player = PyInt 14, score_dealer = PyInt 5,
                                 np_random = cycle [9998]\<rparr>) = NpInt64 15
   \<and> fst (draw_card \<lparr>score_player = PyInt 14, score_dealer = PyInt 10, np_random = cycle [0]\<rparr>) < 0
   \<and> score_dealer (dealer_draw \<lparr>score_player = PyInt 14, score_dealer = PyInt 10,
                                 np_random = cycle [0]\<rparr>) = NpInt64 8
   \<and> next_black 8 \<lparr>score_player = PyInt 14, score_dealer = PyInt 5, np_random = cycle [9998]\<rparr>
   \<and> dealer_loop \<lparr>score_player = PyInt 14, score_dealer = PyInt 5, np_random = cycle [9998]\<rparr>
       = Some \<lparr>score_player = PyInt 14, score_dealer = NpInt64 25, np_random = cycle [9998]\<rparr>"
proof -
  let ?e = "\<lparr>score_player = PyInt 14, score_dealer = PyInt 5, np_random = cycle [9998]\<rparr>"
  let ?r = "\<lparr>score_player = PyInt 14, score_dealer = PyInt 10, np_random = cycle [0]\<rparr>"
  have dc: "draw_card \<lparr>score_player = p, score_dealer = d, np_random = cycle [9998]\<rparr>
      = (10, \<lparr>score_player = p, score_dealer = d, np_random = cycle [9998]\<rparr>)" for p d
    by (simp add: draw_card_def choice_def randint_def)
  have dd: "dealer_draw \<lparr>score_player = p, score_dealer = d, np_random = cycle [9998]\<rparr>
      = \<lparr>score_player = p, score_dealer = np_add d 10, np_random = cycle [9998]\<rparr>" for p d
    by (simp add: dealer_draw_def dc)
  have nb: "next_black n \<lparr>score_player = p, score_dealer = d, np_random = cycle [9998]\<rparr>" for n p d
    by (induction n) (simp_all add: dc)
  have a1: "np_add (PyInt 5) 10 = NpInt64 15" and a2: "np_add (NpInt64 15) 10 = NpInt64 25"
    by (simp_all add: np_add_def)
  have b2: "dealer_loop_bounded (Suc (Suc n)) ?e
      = Some \<lparr>score_player = PyInt 14, score_dealer = NpInt64 25, np_random = cycle [9998]\<rparr>" for n
    by (simp add: dd a1 a2 int_of_def dealer_loop_bounded_stop)
  have "8 = Suc (Suc 6)" by simp
  with b2 [of 6] have b: "dealer_loop_bounded 8 ?e
      = Some \<lparr>score_player = PyInt 14, score_dealer = NpInt64 25, np_random = cycle [9998]\<rparr>"
    by metis
  have rc: "draw_card ?r = (- 2, ?r)"
    by (simp add: draw_card_def choice_def randint_def)
  have rd: "score_dealer (dealer_draw ?r) = NpInt64 8"
    by (simp add: dealer_draw_def rc np_add_def)
  have v: "- (2 ^ 63) + 10 \<le> int_of (PyInt 5) \<and> int_of (PyInt 5) < 2 ^ 63 - 10"
    by (simp add: int_of_def)
  from dealer_loop_progress [of ?e] nb [of 8 "PyInt 14" "PyInt 5"] b
  have "dealer_loop ?e = Some \<lparr>score_player = PyInt 14, score_dealer = NpInt64 25, np_random = cycle [9998]\<rparr>"
    by force
  with nb [of 8 "PyInt 14" "PyInt 5"] rc rd v show ?thesis
    by (simp add: dc dd a1)
qed

theorem dealer_loop_counterexample:
  "int_of (score_dealer (dealer_draw \<lparr>score_player = PyInt 5, score_dealer = PyInt 10,
                                       np_random = sconst 0\<rparr>)) = 8
   \<and> int_of (PyInt 10) = 10
   \<and> \<not> 10 < (8::int) \<and> \<not> truth (is_bust (NpInt64 8))
   \<and> dealer_loop \<lparr>score_player = PyInt 5, score_dealer = PyInt 5,
                   np_random = cycle [3333, 0, 0, 0]\<rparr> = None
   \<and> step 0 \<lparr>score_player = PyInt 5, score_dealer = PyInt 5,
               np_random = cycle [3333, 0, 0, 0]\<rparr> = None"
  using dealer_loop_alternating [of "PyInt 5"]
  by (simp add: dealer_draw_def draw_card_def choice_def randint_def is_bust_def step_def
      action_space_contains_def Discrete_contains_def np_add_def int_of_def)


text \<open>
  Claim C8 at a failing input. After \<^verbatim>\<open>reset\<close> has dealt 10 and 10 (an observation inside
  \<^verbatim>\<open>MultiDiscrete([22, 11])\<close>) and the deck holds black tens, sticking returns the
  observation \<open>(10, 20)\<close>, and hitting twice returns \<open>(20, 10)\<close> and then \<open>(30, 10)\<close>:
  a dealer's sum above 10 and a player's sum above 21, both outside the declared space.
\<close>

theorem observation_leaves_space:
  "fst (reset \<lparr>score_player = PyInt 0, score_dealer = PyInt 0,
                np_random = 8 ## 8 ## cycle [9998]\<rparr>) = (PyInt 10, PyInt 10)
   \<and> observation_space_contains (PyInt 10, PyInt 10)
   \<and> step 0 \<lparr>score_player = PyInt 10, score_dealer = PyInt 10, np_random = cycle [9998]\<rparr>
       = Some (Inr ((PyInt 10, NpInt64 20), - 1, True),
               \<lparr>score_player = PyInt 10, score_dealer = NpInt64 20, np_random = cycle [9998]\<rparr>)
   \<and> int_of (NpInt64 20) = 20
   \<and> \<not> observation_space_contains (PyInt 10, NpInt64 20)
   \<and> step 1 \<lparr>score_player = PyInt 10, score_dealer = PyInt 10, np_random = cycle [9998]\<rparr>
       = Some (Inr ((NpInt64 20, PyInt 10), 0, False),
               \<lparr>score_player = NpInt64 20, score_dealer = PyInt 10, np_random = cycle [9998]\<rparr>)
   \<and> step 1 \<lparr>score_player = NpInt64 20, score_dealer = PyInt 10, np_random = cycle [9998]\<rparr>
       = Some (Inr ((NpInt64 30, PyInt 10), - 1, True),
               \<lparr>score_player = NpInt64 30, score_dealer = PyInt 10, np_random = cycle [9998]\<rparr>)
   \<and> int_of (NpInt64 30) = 30
   \<and> \<not> observation_space_contains (NpInt64 30, PyInt 10)
   \<and> snd (reset \<lparr>score_player = PyInt 0, score_dealer = PyInt 0,
                   np_random = 8 ## 8 ## cycle [9998]\<rparr>)
       = \<lparr>score_player = PyInt 10, score_dealer = PyInt 10, np_random = cycle [9998]\<rparr>"
proof -
  have dc: "draw_card \<lparr>score_player = p, score_dealer = d, np_random = cycle [9998]\<rparr>
      = (10, \<lparr>score_player = p, score_dealer = d, np_random = cycle [9998]\<rparr>)" for p d
    by (simp add: draw_card_def choice_def randint_def)
  have a: "np_add (PyInt 10) 10 = NpInt64 20" and a': "np_add (NpInt64 20) 10 = NpInt64 30"
    by (simp_all add: np_add_def)
  have "dealer_loop_bounded (Suc 0) \<lparr>score_player = PyInt 10, score_dealer = PyInt 10, np_random = cycle [9998]\<rparr>
      = Some \<lparr>score_player = PyInt 10, score_dealer = NpInt64 20, np_random = cycle [9998]\<rparr>"
    by (simp add: dealer_draw_def dc a int_of_def)
  then have l: "dealer_loop \<lparr>score_player = PyInt 10, score_dealer = PyInt 10, np_random = cycle [9998]\<rparr>
      = Some \<lparr>score_player = PyInt 10, score_dealer = NpInt64 20, np_random = cycle [9998]\<rparr>"
    by (rule dealer_loop_bounded_sound)
  have s0: "step 0 \<lparr>score_player = PyInt 10, score_dealer = PyInt 10, np_random = cycle [9998]\<rparr>
       = Some (Inr ((PyInt 10, NpInt64 20), - 1, True),
               \<lparr>score_player = PyInt 10, score_dealer = NpInt64 20, np_random = cycle [9998]\<rparr>)"
    by (simp add: step_def action_space_contains_def Discrete_contains_def l
        get_reward_and_terminator_def is_bust_def is_False_def np_sign_def get_observation_def
        int_of_def)
  have s1: "step 1 \<lparr>score_player = PyInt 10, score_dealer = PyInt 10, np_random = cycle [9998]\<rparr>
       = Some (Inr ((NpInt64 20, PyInt 10), 0, False),
               \<lparr>score_player = NpInt64 20, score_dealer = PyInt 10, np_random = cycle [9998]\<rparr>)"
    by (simp add: step_def action_space_contains_def Discrete_contains_def player_draw_def dc a
        get_reward_and_terminator_def get_observation_def is_bust_def)
  have s2: "step 1 \<lparr>score_player = NpInt64 20, score_dealer = PyInt 10, np_random = cycle [9998]\<rparr>
       = Some (Inr ((NpInt64 30, PyInt 10), - 1, True),
               \<lparr>score_player = NpInt64 30, score_dealer = PyInt 10, np_random = cycle [9998]\<rparr>)"
    by (simp add: step_def action_space_contains_def Discrete_contains_def player_draw_def dc a'
        get_reward_and_terminator_def get_observation_def is_bust_def)
  have r: "reset \<lparr>score_player = PyInt 0, score_dealer = PyInt 0, np_random = 8 ## 8 ## cycle [9998]\<rparr>
      = ((PyInt 10, PyInt 10),
         \<lparr>score_player = PyInt 10, score_dealer = PyInt 10, np_random = cycle [9998]\<rparr>)"
    by (simp add: reset_def draw_hand_def randint_def get_observation_def)
  have sp: "observation_space_contains (PyInt 10, PyInt 10)
      \<and> \<not> observation_space_contains (PyInt 10, NpInt64 20)
      \<and> \<not> observation_space_contains (NpInt64 30, PyInt 10)
      \<and> int_of (NpInt64 20) = 20 \<and> int_of (NpInt64 30) = 30"
    by (simp add: observation_space_contains_def MultiDiscrete_contains_def int_of_def)
  from s0 s1 s2 r sp show ?thesis
    by simp
qed

text \<open>
  Claim C9, as amended. Two engines, whatever their states, that are seeded with the same
  seed, then reset, and then driven with the same list of actions return the same first
  observation and the same results call by call (observation, reward and \<^verbatim>\<open>done\<close>, or the
  error raised). (The counterexample: without the reset the sums dealt by each
  constructor's own unseeded \<^verbatim>\<open>reset\<close> are still there: two new engines seeded alike answer
  the same hit with \<open>(7, 2)\<close> and \<open>(8, 3)\<close>.)
\<close>

theorem seeded_reset_runs_agree:
  "reset (snd (seed mk en1 (Some v) e1)) = reset (snd (seed mk en2 (Some v) e2))
   \<and> run (snd (reset (snd (seed mk en1 (Some v) e1)))) actions
       = run (snd (reset (snd (seed mk en2 (Some v) e2)))) actions"
proof -
  have "reset (snd (seed mk en1 (Some v) e1)) = reset (snd (seed mk en2 (Some v) e2))"
    by (simp add: seed_def seeding_np_random_def Let_def
        reset_after_seed [where ?e1.0 = e1 and ?e2.0 = e2])
  then show ?thesis by simp
qed

theorem seeded_step_counterexample:
  "np_random (snd (seed (\<lambda>s. cycle [s]) 0 (Some 3333) (init (\<lambda>s. cycle [s]) 0)))
     = np_random (snd (seed (\<lambda>s. cycle [s]) 0 (Some 3333) (init (\<lambda>s. cycle [s]) 1)))
   \<and> run (snd (seed (\<lambda>s. cycle [s]) 0 (Some 3333) (init (\<lambda>s. cycle [s]) 0))) [1]
       = Some [Inr ((NpInt64 7, PyInt 2), 0, False)]
   \<and> run (snd (seed (\<lambda>s. cycle [s]) 0 (Some 3333) (init (\<lambda>s. cycle [s]) 1))) [1]
       = Some [Inr ((NpInt64 8, PyInt 3), 0, False)]"
proof -
  have i0: "init (\<lambda>s. cycle [s]) 0
      = \<lparr>score_player = PyInt 2, score_dealer = PyInt 2, np_random = cycle [0]\<rparr>"
    by (simp add: init_def reset_def draw_hand_def randint_def seeding_np_random_def Let_def)
  have i1: "init (\<lambda>s. cycle [s]) (Suc 0)
      = \<lparr>score_player = PyInt 3, score_dealer = PyInt 3, np_random = cycle [Suc 0]\<rparr>"
    by (simp add: init_def reset_def draw_hand_def randint_def seeding_np_random_def Let_def)
  have s: "snd (seed (\<lambda>s. cycle [s]) 0 (Some 3333) \<lparr>score_player = p, score_dealer = d, np_random = g\<rparr>)
      = \<lparr>score_player = p, score_dealer = d, np_random = cycle [3333]\<rparr>" for p d g
    by (simp add: seed_def seeding_np_random_def)
  have dc: "draw_card \<lparr>score_player = p, score_dealer = d, np_random = cycle [3333]\<rparr>
      = (5, \<lparr>score_player = p, score_dealer = d, np_random = cycle [3333]\<rparr>)" for p d
    by (simp add: draw_card_def choice_def randint_def)
  have a: "np_add (PyInt 2) 5 = NpInt64 7" and a': "np_add (PyInt 3) 5 = NpInt64 8"
    by (simp_all add: np_add_def)
  have s1: "step 1 \<lparr>score_player = PyInt 2, score_dealer = PyInt 2, np_random = cycle [3333]\<rparr>
       = Some (Inr ((NpInt64 7, PyInt 2), 0, False),
               \<lparr>score_player = NpInt64 7, score_dealer = PyInt 2, np_random = cycle [3333]\<rparr>)"
    by (simp add: step_def action_space_contains_def Discrete_contains_def player_draw_def dc a
        get_reward_and_terminator_def get_observation_def is_bust_def)
  have s2: "step 1 \<lparr>score_player = PyInt 3, score_dealer = PyInt 3, np_random = cycle [3333]\<rparr>
       = Some (Inr ((NpInt64 8, PyInt 3), 0, False),
               \<lparr>score_player = NpInt64 8, score_dealer = PyInt 3, np_random = cycle [3333]\<rparr>)"
    by (simp add: step_def action_space_contains_def Discrete_contains_def player_draw_def dc a'
        get_reward_and_terminator_def get_observation_def is_bust_def)
  show ?thesis
    by (simp add: i0 i1 s s1 s2)
qed

text \<open>
  Claim C10. \<^verbatim>\<open>step\<close> with Hit (1) returns and leaves the dealer's sum as it was;
  \<^verbatim>\<open>step\<close> with Stick (0), whenever it returns, leaves the player's sum as it was.
\<close>

theorem step_frame:
  "(\<exists>r e'. step 1 e = Some (r, e') \<and> score_dealer e' = score_dealer e)
   \<and> (\<forall>r e'. step 0 e = Some (r, e') \<longrightarrow> score_player e' = score_player e)"
proof
  show "\<exists>r e'. step 1 e = Some (r, e') \<and> score_dealer e' = score_dealer e"
    by (simp add: step_def action_space_contains_def Discrete_contains_def Let_def
        get_reward_and_terminator_def player_draw_dealer)
next
  show "\<forall>r e'. step 0 e = Some (r, e') \<longrightarrow> score_player e' = score_player e"
  proof (intro allI impI)
    fix r e'
    assume s: "step 0 e = Some (r, e')"
    then have "dealer_loop e = Some e'"
      by (auto simp: step_def action_space_contains_def Discrete_contains_def
          split: option.splits sum.splits)
    then obtain n where "dealer_loop_bounded n e = Some e'"
      using dealer_loop_bounded_complete by blast
    then show "score_player e' = score_player e"
      by (rule dealer_loop_bounded_player)
  qed
qed

theorem step_frame_witness:
  "step 0 \<lparr>score_player = PyInt 14, score_dealer = PyInt 5, np_random = cycle [9998]\<rparr>
     = Some (Inr ((PyInt 14, NpInt64 25), 1, True),
             \<lparr>score_player = PyInt 14, score_dealer = NpInt64 25, np_random = cycle [9998]\<rparr>)
   \<and> score_player \<lparr>score_player = PyInt 14, score_dealer = NpInt64 25, np_random = cycle [9998]\<rparr>
       = PyInt 14
   \<and> (\<exists>r e'. step 1 \<lparr>score_player = PyInt 14, score_dealer = PyInt 5, np_random = cycle [9998]\<rparr>
                = Some (r, e')
        \<and> score_dealer e' = PyInt 5)"
proof -
  let ?e = "\<lparr>score_player = PyInt 14, score_dealer = PyInt 5, np_random = cycle [9998]\<rparr>"
  let ?e2 = "\<lparr>score_player = PyInt 14, score_dealer = NpInt64 25, np_random = cycle [9998]\<rparr>"
  have dc: "draw_card \<lparr>score_player = p, score_dealer = d, np_random = cycle [9998]\<rparr>
      = (10, \<lparr>score_player = p, score_dealer = d, np_random = cycle [9998]\<rparr>)" for p d
    by (simp add: draw_card_def choice_def randint_def)
  have dd: "dealer_draw \<lparr>score_player = p, score_dealer = d, np_random = cycle [9998]\<rparr>
      = \<lparr>score_player = p, score_dealer = np_add d 10, np_random = cycle [9998]\<rparr>" for p d
    by (simp add: dealer_draw_def dc)
  have a1: "np_add (PyInt 5) 10 = NpInt64 15" and a2: "np_add (NpInt64 15) 10 = NpInt64 25"
    by (simp_all add: np_add_def)
  have "dealer_loop_bounded (Suc (Suc 0)) ?e = Some ?e2"
    by (simp add: dd a1 a2 int_of_def)
  then have l: "dealer_loop ?e = Some ?e2"
    by (rule dealer_loop_bounded_sound)
  have s: "step 0 ?e = Some (Inr ((PyInt 14, NpInt64 25), 1, True), ?e2)"
    by (simp add: step_def action_space_contains_def Discrete_contains_def l
        get_reward_and_terminator_def is_bust_def is_False_def get_observation_def)
  from step_frame [of ?e] s show ?thesis by simp
qed


end
